theory Spec2Isabelle
  imports Main "HOL-Library.Sublist" "HOL-Library.Char_ord"
begin

section \<open>The hourly upload route (src/app/api/hourly-upload/route.ts)\<close>

text \<open>
  The route lists the \<open>images\<close> folder of a GitHub repository, keeps the entries that
  are image files, streams each of them to Cloudinary and answers with a JSON report.
  Strings are \<open>char list\<close>s, one \<open>char\<close> per code unit of the JavaScript string,
  for code units below 256. A thrown or rejected \<open>Error\<close> is the string of its
  \<open>message\<close>, carried by \<open>Inl\<close>.
\<close>

subsection \<open>Data\<close>

text \<open>The \<open>GitHubFile\<close> type of the handler (route.ts, lines 46-50).\<close>

record GitHubFile =
  name :: string
  download_url :: string
  type :: string

text \<open>The part of \<open>cloudinary.UploadApiResponse\<close> the handler reads.\<close>

record UploadApiResponse =
  secure_url :: string

text \<open>An element of \<open>uploadResults\<close> (route.ts, line 61); its field \<open>file\<close> is written \<open>file'\<close>.\<close>

record uploadResult =
  file' :: string
  url :: string

text \<open>JavaScript object literals and the values handed to \<open>JSON.stringify\<close>.\<close>

datatype json =
    JNumber int
  | JString string
  | JArray "json list"
  | JObject "(string \<times> json) list"

text \<open>
  A \<open>Response\<close>: the \<open>body\<close> is the value that the handler passes to
  \<open>JSON.stringify\<close>.
\<close>

record Response =
  status :: nat
  headers :: "(string \<times> string) list"
  body :: json

text \<open>The environment variables the sources mention.\<close>

record process_env =
  GITHUB_OWNER :: "string option"
  GITHUB_REPO :: "string option"
  GITHUB_TOKEN :: "string option"

subsection \<open>The outside world\<close>

text \<open>
  Everything the handler does to the outside is an event of the trace, in program order:
  the listing request with its URL and headers, the streaming download of one image,
  the call of \<open>upload_stream\<close> with its options object, and the two console calls
  (\<open>console.log\<close> with the file name and the delivery URL, \<open>console.error\<close> with the
  file name and the error message).
\<close>

datatype event =
    AxiosGet string "(string \<times> string) list"
  | AxiosStream string
  | UploadStream "(string \<times> json) list"
  | ConsoleLog string string
  | ConsoleError string string

text \<open>
  What \<open>githubResponse.data\<close> holds after the listing request resolved. GitHub answers
  a request for a directory with an array of descriptors, and a request for a path that
  is a single file with one object. The entries of an array have the shape that the type
  \<open>GitHubFile\<close> declares.
\<close>

datatype payload =
    Listing "GitHubFile list"
  | ObjectData "(string \<times> json) list"

text \<open>
  The three remote capabilities. Each one reads and changes the state \<open>'w\<close> of the
  outside world, so an answer may depend on everything that happened before; \<open>'s\<close> is the
  byte stream of a download. Every call is taken to settle, with an error or with a value:
  a promise that stays pending for ever is not part of this model.
\<close>

record ('w, 's) services =
  axios_get :: "'w \<Rightarrow> string \<Rightarrow> (string \<times> string) list \<Rightarrow> (string + payload) \<times> 'w"
  axios_stream :: "'w \<Rightarrow> string \<Rightarrow> (string + 's) \<times> 'w"
  upload_stream :: "'w \<Rightarrow> (string \<times> json) list \<Rightarrow> 's \<Rightarrow> (string + UploadApiResponse) \<times> 'w"

record 'w run_state =
  world :: 'w
  trace :: "event list"

definition emit :: "event \<Rightarrow> 'w run_state \<Rightarrow> 'w run_state" where
  "emit e st = st\<lparr>trace := trace st @ [e]\<rparr>"

subsection \<open>The two regular expressions\<close>

text \<open>
  Under the flag \<open>i\<close> (without \<open>u\<close>) two code units match when their upper-case
  forms agree, and a code unit outside ASCII never folds to an ASCII one. For the ASCII
  letters of the pattern only the folding of \<open>a\<close>..\<open>z\<close> matters.
\<close>

definition Canonicalize :: "char \<Rightarrow> char" where
  "Canonicalize c =
     (if CHR ''a'' \<le> c \<and> c \<le> CHR ''z'' then char_of (of_char c - (32::nat)) else c)"

definition ci_match :: "string \<Rightarrow> string \<Rightarrow> bool" where
  "ci_match pat s = (map Canonicalize s = map Canonicalize pat)"

text \<open>
  \<open>/\.(jpe?g|png|gif|webp)$/i\<close> tried at the start of \<open>s\<close>: a dot, one of the
  alternatives of the group, then the end of the input. \<open>image_ext\<close> is the group
  followed by \<open>$\<close>.
\<close>

definition image_ext :: "string \<Rightarrow> bool" where
  "image_ext cs =
     (ci_match ''jpeg'' cs \<or> ci_match ''jpg'' cs \<or> ci_match ''png'' cs \<or>
      ci_match ''gif'' cs \<or> ci_match ''webp'' cs)"

fun image_ext_at :: "string \<Rightarrow> bool" where
  "image_ext_at [] = False"
| "image_ext_at (c # cs) = (c = CHR ''.'' \<and> image_ext cs)"

text \<open>\<open>RegExp.prototype.test\<close>: the pattern is tried at every index from the left.\<close>

fun regex_test_image :: "string \<Rightarrow> bool" where
  "regex_test_image [] = False"
| "regex_test_image (c # cs) = (image_ext_at (c # cs) \<or> regex_test_image cs)"

text \<open>
  \<open>/\.[^/.]+$/\<close> tried at the start of \<open>s\<close>: a dot, then one or more code units
  that are neither a slash nor a dot, up to the end of the input.
\<close>

fun ext_segment_at :: "string \<Rightarrow> bool" where
  "ext_segment_at [] = False"
| "ext_segment_at (c # cs) =
     (c = CHR ''.'' \<and> cs \<noteq> [] \<and> list_all (\<lambda>d. d \<noteq> CHR ''/'' \<and> d \<noteq> CHR ''.'') cs)"

text \<open>
  \<open>file.name.replace(/\.[^/.]+$/, '')\<close> (route.ts, line 65): the leftmost match is
  replaced by the empty string; it reaches to the end of the name, so nothing follows it.
  Without a match the name is returned as it is.
\<close>

fun publicId :: "string \<Rightarrow> string" where
  "publicId [] = []"
| "publicId (c # cs) = (if ext_segment_at (c # cs) then [] else c # publicId cs)"

subsection \<open>Filtering (route.ts, lines 55-59)\<close>

definition isImageFile :: "GitHubFile \<Rightarrow> bool" where
  "isImageFile f = (type f = ''file'' \<and> regex_test_image (name f))"

definition imageFiles :: "GitHubFile list \<Rightarrow> GitHubFile list" where
  "imageFiles files = filter isImageFile files"

subsection \<open>Uploading one image (route.ts, lines 14-31)\<close>

text \<open>The options object of \<open>upload_stream\<close> (route.ts, line 22).\<close>

definition upload_options :: "string \<Rightarrow> (string \<times> json) list" where
  "upload_options pid = [(''folder'', JString ''github-images''), (''public_id'', JString pid)]"

text \<open>
  The promise rejects when the download fails (\<open>.catch(reject)\<close>), and then
  \<open>upload_stream\<close> is never called; otherwise it settles with what the callback of
  \<open>upload_stream\<close> receives.
\<close>

definition uploadImageFromUrl ::
  "('w, 's) services \<Rightarrow> string \<Rightarrow> string \<Rightarrow> 'w run_state \<Rightarrow>
     (string + UploadApiResponse) \<times> 'w run_state" where
  "uploadImageFromUrl sv u pid st =
     (case axios_stream sv (world st) u of
        (Inl err, w1) \<Rightarrow> (Inl err, \<lparr>world = w1, trace = trace st @ [AxiosStream u]\<rparr>)
      | (Inr data, w1) \<Rightarrow>
          (case upload_stream sv w1 (upload_options pid) data of
             (res, w2) \<Rightarrow>
               (res, \<lparr>world = w2,
                      trace = trace st @ [AxiosStream u, UploadStream (upload_options pid)]\<rparr>)))"

subsection \<open>The handler (route.ts, lines 33-89)\<close>

text \<open>A template literal prints an unset variable as \<open>undefined\<close>.\<close>

definition template :: "string option \<Rightarrow> string" where
  "template v = (case v of None \<Rightarrow> ''undefined'' | Some s \<Rightarrow> s)"

definition listing_url :: "process_env \<Rightarrow> string" where
  "listing_url env =
     ''https://api.github.com/repos/'' @ template (GITHUB_OWNER env) @ ''/'' @
     template (GITHUB_REPO env) @ ''/contents/images''"

text \<open>The \<open>headers\<close> object of the listing request; its \<open>Authorization\<close> line is a comment.\<close>

definition listing_headers :: "(string \<times> string) list" where
  "listing_headers = [(''Accept'', ''application/vnd.github.v3+json'')]"

text \<open>
  The body of the \<open>for\<close> loop (lines 63-74) on the pair of \<open>uploadResults\<close> and the
  state: the inner \<open>try\<close> records a success and logs it, the inner \<open>catch\<close> logs the
  failure and goes on.
\<close>

definition upload_one ::
  "('w, 's) services \<Rightarrow> GitHubFile \<Rightarrow> uploadResult list \<times> 'w run_state \<Rightarrow>
     uploadResult list \<times> 'w run_state" where
  "upload_one sv f acc =
     (case acc of (uploadResults, st) \<Rightarrow>
        (let rawUrl = download_url f; pid = publicId (name f) in
         case uploadImageFromUrl sv rawUrl pid st of
           (Inr result, st1) \<Rightarrow>
             (uploadResults @ [\<lparr>file' = name f, url = secure_url result\<rparr>],
              emit (ConsoleLog (name f) (secure_url result)) st1)
         | (Inl err, st1) \<Rightarrow> (uploadResults, emit (ConsoleError (name f) err) st1)))"

fun upload_loop ::
  "('w, 's) services \<Rightarrow> GitHubFile list \<Rightarrow> uploadResult list \<times> 'w run_state \<Rightarrow>
     uploadResult list \<times> 'w run_state" where
  "upload_loop sv [] acc = acc"
| "upload_loop sv (f # fs) acc = upload_loop sv fs (upload_one sv f acc)"

definition result_json :: "uploadResult \<Rightarrow> json" where
  "result_json r = JObject [(''file'', JString (file' r)), (''url'', JString (url r))]"

definition report_body :: "uploadResult list \<Rightarrow> json" where
  "report_body uploadResults =
     JObject [(''message'', JString ''Upload complete''),
              (''uploaded'', JArray (map result_json uploadResults))]"

definition json_headers :: "(string \<times> string) list" where
  "json_headers = [(''Content-Type'', ''application/json'')]"

text \<open>
  An object has no method \<open>filter\<close>, whatever its keys are: the call on line 55 throws a
  \<open>TypeError\<close>, with this message where the handler runs as it is written.
\<close>

definition filter_TypeError :: string where
  "filter_TypeError = ''files.filter is not a function''"

text \<open>
  The outer \<open>try\<close> and \<open>catch\<close> (lines 34 and 83-88) answer 500 with the message of
  whatever the outer block throws: the error of \<open>axios.get\<close>, or the \<open>TypeError\<close> of
  the filter when the payload is not an array. On an array of descriptors nothing else
  in the outer block throws, and the inner \<open>try\<close> keeps the errors of the uploads.
\<close>

definition GET :: "('w, 's) services \<Rightarrow> process_env \<Rightarrow> 'w \<Rightarrow> Response \<times> 'w run_state" where
  "GET sv env w =
     (case axios_get sv w (listing_url env) listing_headers of
        (Inl err, w1) \<Rightarrow>
          (\<lparr>status = 500, headers = json_headers, body = JObject [(''error'', JString err)]\<rparr>,
           \<lparr>world = w1, trace = [AxiosGet (listing_url env) listing_headers]\<rparr>)
      | (Inr (ObjectData obj), w1) \<Rightarrow>
          (\<lparr>status = 500, headers = json_headers,
            body = JObject [(''error'', JString filter_TypeError)]\<rparr>,
           \<lparr>world = w1, trace = [AxiosGet (listing_url env) listing_headers]\<rparr>)
      | (Inr (Listing files), w1) \<Rightarrow>
          (case upload_loop sv (imageFiles files)
                  ([], \<lparr>world = w1, trace = [AxiosGet (listing_url env) listing_headers]\<rparr>) of
             (uploadResults, st) \<Rightarrow>
               (\<lparr>status = 200, headers = json_headers, body = report_body uploadResults\<rparr>, st)))"

subsection \<open>Reading a trace\<close>

text \<open>The URLs of the streaming downloads, one for each call of \<open>uploadImageFromUrl\<close>.\<close>

fun stream_urls :: "event list \<Rightarrow> string list" where
  "stream_urls [] = []"
| "stream_urls (AxiosStream u # tr) = u # stream_urls tr"
| "stream_urls (e # tr) = stream_urls tr"

text \<open>The options objects that reached \<open>upload_stream\<close>.\<close>

fun upload_calls :: "event list \<Rightarrow> (string \<times> json) list list" where
  "upload_calls [] = []"
| "upload_calls (UploadStream opts # tr) = opts # upload_calls tr"
| "upload_calls (e # tr) = upload_calls tr"

text \<open>The listing requests: URL and headers.\<close>

fun listing_requests :: "event list \<Rightarrow> (string \<times> (string \<times> string) list) list" where
  "listing_requests [] = []"
| "listing_requests (AxiosGet u hs # tr) = (u, hs) # listing_requests tr"
| "listing_requests (e # tr) = listing_requests tr"

text \<open>
  Every pass through the loop ends in exactly one console call, which names the file:
  the console lines give the file names in the order of the attempts, say which attempts
  failed, and list the successes.
\<close>

fun console_names :: "event list \<Rightarrow> string list" where
  "console_names [] = []"
| "console_names (ConsoleLog n u # tr) = n # console_names tr"
| "console_names (ConsoleError n m # tr) = n # console_names tr"
| "console_names (e # tr) = console_names tr"

fun failed_flags :: "event list \<Rightarrow> bool list" where
  "failed_flags [] = []"
| "failed_flags (ConsoleLog n u # tr) = False # failed_flags tr"
| "failed_flags (ConsoleError n m # tr) = True # failed_flags tr"
| "failed_flags (e # tr) = failed_flags tr"

fun logged_successes :: "event list \<Rightarrow> uploadResult list" where
  "logged_successes [] = []"
| "logged_successes (ConsoleLog n u # tr) = \<lparr>file' = n, url = u\<rparr> # logged_successes tr"
| "logged_successes (e # tr) = logged_successes tr"

subsection \<open>The eligibility filter in the words of the specification\<close>

text \<open>
  A descriptor is eligible when its kind is \<open>file\<close> and its name, in lower case, ends
  with a dot and one of the extensions of the allow-list.
\<close>

definition toLowerCase :: "char \<Rightarrow> char" where
  "toLowerCase c =
     (if CHR ''A'' \<le> c \<and> c \<le> CHR ''Z'' then char_of (of_char c + (32::nat)) else c)"

definition spec_allow_list :: "string list" where
  "spec_allow_list = [''jpg'', ''jpeg'', ''png'', ''gif'', ''webp'']"

definition spec_matches_allow_list :: "string \<Rightarrow> bool" where
  "spec_matches_allow_list nm =
     list_ex (\<lambda>e. suffix (CHR ''.'' # e) (map toLowerCase nm)) spec_allow_list"

definition spec_isEligible :: "GitHubFile \<Rightarrow> bool" where
  "spec_isEligible f = (type f = ''file'' \<and> spec_matches_allow_list (name f))"

subsection \<open>The outcomes of the attempts in the words of the specification\<close>

text \<open>
  An upload attempt opens the stream at the retrieval URL of the descriptor and, when
  that succeeded, hands the stream to the destination together with the options of the
  identifier; it fails when either step fails, and succeeds with what the destination
  returns. The attempts are made one after the other, each in the world that the one
  before it left. \<open>spec_outcomes\<close> lists what the capabilities answer to the
  attempts, \<open>Inl\<close> for a failure; \<open>spec_successes\<close> is the report over the
  descriptors whose attempt succeeded.
\<close>

fun spec_outcomes ::
  "('w, 's) services \<Rightarrow> 'w \<Rightarrow> GitHubFile list \<Rightarrow> (string + UploadApiResponse) list" where
  "spec_outcomes sv w [] = []"
| "spec_outcomes sv w (f # fs) =
     (case axios_stream sv w (download_url f) of
        (Inl err, w1) \<Rightarrow> Inl err # spec_outcomes sv w1 fs
      | (Inr data, w1) \<Rightarrow>
          (case upload_stream sv w1 (upload_options (publicId (name f))) data of
             (res, w2) \<Rightarrow> res # spec_outcomes sv w2 fs))"

fun spec_successes ::
  "GitHubFile list \<Rightarrow> (string + UploadApiResponse) list \<Rightarrow> uploadResult list" where
  "spec_successes (f # fs) (Inr r # os) =
     \<lparr>file' = name f, url = secure_url r\<rparr> # spec_successes fs os"
| "spec_successes (f # fs) (Inl err # os) = spec_successes fs os"
| "spec_successes fs os = []"

subsection \<open>A small world to run the handler in\<close>

text \<open>
  The world counts the remote calls. The listing answers with what it is given; the
  download of \<open>b.PNG\<close> fails; the destination rejects the stream of \<open>c.gif\<close>;
  every other upload that is reached succeeds.
\<close>

definition demo_files :: "GitHubFile list" where
  "demo_files =
     [\<lparr>name = ''a.jpg'', download_url = ''raw/a.jpg'', type = ''file''\<rparr>,
      \<lparr>name = ''readme.md'', download_url = ''raw/readme.md'', type = ''file''\<rparr>,
      \<lparr>name = ''b.PNG'', download_url = ''raw/b.PNG'', type = ''file''\<rparr>,
      \<lparr>name = ''old.gif'', download_url = ''raw/old.gif'', type = ''dir''\<rparr>,
      \<lparr>name = ''photo.final.png'', download_url = ''raw/photo.final.png'', type = ''file''\<rparr>]"

definition demo_services :: "(string + payload) \<Rightarrow> (nat, string) services" where
  "demo_services listing =
     \<lparr>axios_get = (\<lambda>w u hs. (listing, Suc w)),
      axios_stream = (\<lambda>w u. (if u = ''raw/b.PNG'' then Inl ''Request failed with status code 404''
                              else Inr u, Suc w)),
      upload_stream = (\<lambda>w opts data. (if data = ''raw/c.gif'' then Inl ''Invalid image file''
                                      else Inr \<lparr>secure_url = ''res/'' @ data\<rparr>, Suc w))\<rparr>"

text \<open>A listing where one download fails, one upload is rejected and one more file follows.\<close>

definition flaky_files :: "GitHubFile list" where
  "flaky_files =
     [\<lparr>name = ''a.jpg'', download_url = ''raw/a.jpg'', type = ''file''\<rparr>,
      \<lparr>name = ''b.PNG'', download_url = ''raw/b.PNG'', type = ''file''\<rparr>,
      \<lparr>name = ''notes.txt'', download_url = ''raw/notes.txt'', type = ''file''\<rparr>,
      \<lparr>name = ''c.gif'', download_url = ''raw/c.gif'', type = ''file''\<rparr>,
      \<lparr>name = ''d.webp'', download_url = ''raw/d.webp'', type = ''file''\<rparr>]"

text \<open>The object that GitHub sends when \<open>images\<close> is a file and not a folder.\<close>

definition file_object :: "(string \<times> json) list" where
  "file_object =
     [(''name'', JString ''images''), (''type'', JString ''file''),
      (''download_url'', JString ''raw/images'')]"


definition demo_env :: process_env where
  "demo_env = \<lparr>GITHUB_OWNER = Some ''jabercrombia'', GITHUB_REPO = Some ''cloudinary-project'',
                GITHUB_TOKEN = Some ''ghp_example''\<rparr>"

definition demo_url :: string where
  "demo_url = ''https://api.github.com/repos/jabercrombia/cloudinary-project/contents/images''"

section \<open>Properties of the regular expressions\<close>

text \<open>Characters are compared through their codes.\<close>

lemma char_eq_code: "(c = d) = ((of_char c :: nat) = of_char d)"
  by simp

lemma of_char_Canonicalize:
  "(of_char (Canonicalize c) :: nat) =
     (if 97 \<le> (of_char c :: nat) \<and> (of_char c :: nat) \<le> 122 then of_char c - 32 else of_char c)"
proof -
  have "(of_char c :: nat) - 32 < 256" by (rule less_imp_diff_less) simp
  then have "((of_char c :: nat) - 32) mod 256 = of_char c - 32" by (rule mod_less)
  then show ?thesis by (simp add: Canonicalize_def less_eq_char_def)
qed

lemma of_char_toLowerCase:
  "(of_char (toLowerCase c) :: nat) =
     (if 65 \<le> (of_char c :: nat) \<and> (of_char c :: nat) \<le> 90 then of_char c + 32 else of_char c)"
proof (cases "65 \<le> (of_char c :: nat) \<and> (of_char c :: nat) \<le> 90")
  case True
  then have "((of_char c :: nat) + 32) mod 256 = of_char c + 32" by simp
  with True show ?thesis by (simp add: toLowerCase_def less_eq_char_def)
next
  case False
  then show ?thesis by (auto simp add: toLowerCase_def less_eq_char_def)
qed

lemma fold_equiv: "(Canonicalize c = Canonicalize d) = (toLowerCase c = toLowerCase d)"
proof -
  define n m where nm: "n = (of_char c :: nat)" "m = (of_char d :: nat)"
  have up: "(Canonicalize c = Canonicalize d) =
      ((if 97 \<le> n \<and> n \<le> 122 then n - 32 else n) = (if 97 \<le> m \<and> m \<le> 122 then m - 32 else m))"
    unfolding char_eq_code [of "Canonicalize c"] of_char_Canonicalize nm ..
  have lo: "(toLowerCase c = toLowerCase d) =
      ((if 65 \<le> n \<and> n \<le> 90 then n + 32 else n) = (if 65 \<le> m \<and> m \<le> 90 then m + 32 else m))"
    unfolding char_eq_code [of "toLowerCase c"] of_char_toLowerCase nm ..
  show ?thesis unfolding up lo by (simp split: if_splits) arith
qed

lemma map_fold_equiv:
  "(map Canonicalize xs = map Canonicalize ys) = (map toLowerCase xs = map toLowerCase ys)"
proof (induction xs arbitrary: ys)
  case Nil
  then show ?case by simp
next
  case (Cons x xs)
  then show ?case by (cases ys) (simp_all add: fold_equiv)
qed

lemma Canonicalize_dot: "(Canonicalize c = CHR ''.'') = (c = CHR ''.'')"
proof -
  define n where n: "n = (of_char c :: nat)"
  have "(Canonicalize c = CHR ''.'') = ((if 97 \<le> n \<and> n \<le> 122 then n - 32 else n) = 46)"
    unfolding char_eq_code [of "Canonicalize c"] of_char_Canonicalize n by simp
  moreover have "(c = CHR ''.'') = (n = 46)"
    unfolding char_eq_code [of c] n by simp
  ultimately show ?thesis by (simp split: if_splits) arith
qed

lemma Canonicalize_slash: "(Canonicalize c = CHR ''/'') = (c = CHR ''/'')"
proof -
  define n where n: "n = (of_char c :: nat)"
  have "(Canonicalize c = CHR ''/'') = ((if 97 \<le> n \<and> n \<le> 122 then n - 32 else n) = 47)"
    unfolding char_eq_code [of "Canonicalize c"] of_char_Canonicalize n by simp
  moreover have "(c = CHR ''/'') = (n = 47)"
    unfolding char_eq_code [of c] n by simp
  ultimately show ?thesis by (simp split: if_splits) arith
qed

lemma toLowerCase_dot: "(toLowerCase c = CHR ''.'') = (c = CHR ''.'')"
proof -
  define n where n: "n = (of_char c :: nat)"
  have "(toLowerCase c = CHR ''.'') = ((if 65 \<le> n \<and> n \<le> 90 then n + 32 else n) = 46)"
    unfolding char_eq_code [of "toLowerCase c"] of_char_toLowerCase n by simp
  moreover have "(c = CHR ''.'') = (n = 46)"
    unfolding char_eq_code [of c] n by simp
  ultimately show ?thesis by (auto split: if_splits)
qed

lemma regex_test_image_iff:
  "regex_test_image s = (\<exists>pre ext. s = pre @ CHR ''.'' # ext \<and> image_ext ext)"
proof (induction s)
  case Nil
  then show ?case by simp
next
  case (Cons c cs)
  show ?case
  proof
    assume "regex_test_image (c # cs)"
    then consider "image_ext_at (c # cs)" | "regex_test_image cs" by auto
    then show "\<exists>pre ext. c # cs = pre @ CHR ''.'' # ext \<and> image_ext ext"
    proof cases
      case 1
      then have "c # cs = [] @ CHR ''.'' # cs \<and> image_ext cs" by (simp add: image_ext_def)
      then show ?thesis by blast
    next
      case 2
      with Cons.IH obtain pre ext where "cs = pre @ CHR ''.'' # ext" "image_ext ext" by blast
      then have "c # cs = (c # pre) @ CHR ''.'' # ext \<and> image_ext ext" by simp
      then show ?thesis by blast
    qed
  next
    assume "\<exists>pre ext. c # cs = pre @ CHR ''.'' # ext \<and> image_ext ext"
    then obtain pre ext where h: "c # cs = pre @ CHR ''.'' # ext" "image_ext ext" by blast
    show "regex_test_image (c # cs)"
    proof (cases pre)
      case Nil
      with h show ?thesis by (simp add: image_ext_def)
    next
      case (Cons p ps)
      with h have "cs = ps @ CHR ''.'' # ext" by simp
      with h(2) Cons.IH have "regex_test_image cs" by blast
      then show ?thesis by simp
    qed
  qed
qed


lemma ci_match_no_dot_slash:
  assumes "ci_match pat s" and "CHR ''.'' \<notin> set pat" and "CHR ''/'' \<notin> set pat"
  shows "list_all (\<lambda>d. d \<noteq> CHR ''/'' \<and> d \<noteq> CHR ''.'') s"
proof -
  have "d \<noteq> CHR ''/'' \<and> d \<noteq> CHR ''.''" if d: "d \<in> set s" for d
  proof -
    from d have "Canonicalize d \<in> set (map Canonicalize s)" by simp
    with assms(1) have "Canonicalize d \<in> set (map Canonicalize pat)" by (simp add: ci_match_def)
    then obtain p where p: "p \<in> set pat" "Canonicalize d = Canonicalize p" by auto
    from p(1) assms(2,3) have "p \<noteq> CHR ''.''" "p \<noteq> CHR ''/''" by auto
    then have "Canonicalize p \<noteq> CHR ''.''" "Canonicalize p \<noteq> CHR ''/''"
      by (simp_all add: Canonicalize_dot Canonicalize_slash)
    with p(2) show ?thesis by (metis Canonicalize_dot Canonicalize_slash)
  qed
  then show ?thesis by (simp add: list_all_iff)
qed

lemma ci_match_length: "ci_match pat s \<Longrightarrow> length s = length pat"
  by (metis ci_match_def length_map)

lemma image_ext_segment:
  assumes "image_ext ext"
  shows "ext \<noteq> [] \<and> list_all (\<lambda>d. d \<noteq> CHR ''/'' \<and> d \<noteq> CHR ''.'') ext"
proof -
  from assms obtain pat where pat: "ci_match pat ext"
    "pat \<in> {''jpeg'', ''jpg'', ''png'', ''gif'', ''webp''}"
    unfolding image_ext_def by blast
  from pat(2) have "CHR ''.'' \<notin> set pat" "CHR ''/'' \<notin> set pat" "pat \<noteq> []" by auto
  with pat(1) show ?thesis
    using ci_match_no_dot_slash [of pat ext] ci_match_length [of pat ext] by auto
qed

lemma publicId_strip:
  assumes "ext \<noteq> []" and "list_all (\<lambda>d. d \<noteq> CHR ''/'' \<and> d \<noteq> CHR ''.'') ext"
  shows "publicId (pre @ CHR ''.'' # ext) = pre"
proof (induction pre)
  case Nil
  from assms show ?case by simp
next
  case (Cons c cs)
  have "\<not> ext_segment_at (c # cs @ CHR ''.'' # ext)" by simp
  with Cons show ?case by simp
qed

subsection \<open>The filter agrees with the allow-list\<close>

lemma image_ext_lower:
  "image_ext ext = (map toLowerCase ext \<in> set spec_allow_list)"
proof -
  have "ci_match pat ext = (map toLowerCase ext = pat)" if "map toLowerCase pat = pat" for pat
    using that map_fold_equiv [of ext pat] by (simp add: ci_match_def)
  moreover have "map toLowerCase ''jpeg'' = ''jpeg''" "map toLowerCase ''jpg'' = ''jpg''"
    "map toLowerCase ''png'' = ''png''" "map toLowerCase ''gif'' = ''gif''"
    "map toLowerCase ''webp'' = ''webp''"
    by (simp_all add: toLowerCase_def less_eq_char_def)
  ultimately show ?thesis
    unfolding image_ext_def spec_allow_list_def by auto
qed

lemma spec_matches_allow_list_iff:
  "spec_matches_allow_list nm = (\<exists>pre ext. nm = pre @ CHR ''.'' # ext \<and> image_ext ext)"
proof
  assume "spec_matches_allow_list nm"
  then obtain e zs where e: "e \<in> set spec_allow_list" "map toLowerCase nm = zs @ CHR ''.'' # e"
    unfolding spec_matches_allow_list_def list_ex_iff suffix_def by blast
  from e(2) obtain pre rest where pr: "nm = pre @ rest" "map toLowerCase rest = CHR ''.'' # e"
    by (auto simp: map_eq_append_conv)
  from pr(2) obtain c ext where ce: "rest = c # ext" "toLowerCase c = CHR ''.''"
    "map toLowerCase ext = e"
    by (auto simp: map_eq_Cons_conv)
  from ce(2) have "c = CHR ''.''" by (simp add: toLowerCase_dot)
  with pr(1) ce e(1) have "nm = pre @ CHR ''.'' # ext \<and> image_ext ext"
    by (simp add: image_ext_lower)
  then show "\<exists>pre ext. nm = pre @ CHR ''.'' # ext \<and> image_ext ext" by blast
next
  assume "\<exists>pre ext. nm = pre @ CHR ''.'' # ext \<and> image_ext ext"
  then obtain pre ext where pe: "nm = pre @ CHR ''.'' # ext" "image_ext ext" by blast
  have dot: "toLowerCase CHR ''.'' = CHR ''.''" by (simp add: toLowerCase_dot)
  from pe(1) have "map toLowerCase nm = map toLowerCase pre @ CHR ''.'' # map toLowerCase ext"
    by (simp add: dot)
  then have "suffix (CHR ''.'' # map toLowerCase ext) (map toLowerCase nm)"
    unfolding suffix_def by blast
  moreover from pe(2) have "map toLowerCase ext \<in> set spec_allow_list"
    by (simp add: image_ext_lower)
  ultimately show "spec_matches_allow_list nm"
    unfolding spec_matches_allow_list_def list_ex_iff by blast
qed

lemma isImageFile_spec: "isImageFile f = spec_isEligible f"
  by (simp add: isImageFile_def spec_isEligible_def regex_test_image_iff
      spec_matches_allow_list_iff)

section \<open>Properties of the loop and of the handler\<close>

text \<open>The readers of a trace distribute over concatenation.\<close>

lemma stream_urls_append [simp]: "stream_urls (a @ b) = stream_urls a @ stream_urls b"
  by (induction a rule: stream_urls.induct) simp_all

lemma upload_calls_append [simp]: "upload_calls (a @ b) = upload_calls a @ upload_calls b"
  by (induction a rule: upload_calls.induct) simp_all

lemma listing_requests_append [simp]:
  "listing_requests (a @ b) = listing_requests a @ listing_requests b"
  by (induction a rule: listing_requests.induct) simp_all

lemma console_names_append [simp]: "console_names (a @ b) = console_names a @ console_names b"
  by (induction a rule: console_names.induct) simp_all

lemma failed_flags_append [simp]: "failed_flags (a @ b) = failed_flags a @ failed_flags b"
  by (induction a rule: failed_flags.induct) simp_all

lemma logged_successes_append [simp]:
  "logged_successes (a @ b) = logged_successes a @ logged_successes b"
  by (induction a rule: logged_successes.induct) simp_all

lemma length_failed_flags: "length (failed_flags tr) = length (console_names tr)"
  by (induction tr rule: failed_flags.induct) simp_all

lemma successes_by_flags:
  "map file' (logged_successes tr) =
     map fst (filter (\<lambda>p. \<not> snd p) (zip (console_names tr) (failed_flags tr)))"
  by (induction tr rule: failed_flags.induct) simp_all

lemma successes_plus_failures:
  "length (logged_successes tr) + length (filter id (failed_flags tr)) = length (console_names tr)"
  by (induction tr rule: failed_flags.induct) simp_all


lemma uploadImageFromUrl_events:
  assumes "uploadImageFromUrl sv u pid st = (r, st')"
  shows "\<exists>evs. trace st' = trace st @ evs \<and> stream_urls evs = [u] \<and>
           console_names evs = [] \<and> failed_flags evs = [] \<and> logged_successes evs = [] \<and>
           listing_requests evs = [] \<and> set (upload_calls evs) \<subseteq> {upload_options pid}"
  using assms unfolding uploadImageFromUrl_def
  by (auto split: prod.splits sum.splits)

lemma upload_one_events:
  assumes "upload_one sv f (rs, st) = (rs', st')"
  shows "\<exists>evs. trace st' = trace st @ evs \<and> stream_urls evs = [download_url f] \<and>
           console_names evs = [name f] \<and> rs' = rs @ logged_successes evs \<and>
           listing_requests evs = [] \<and>
           set (upload_calls evs) \<subseteq> {upload_options (publicId (name f))}"
proof -
  obtain r st1 where up: "uploadImageFromUrl sv (download_url f) (publicId (name f)) st = (r, st1)"
    by (cases "uploadImageFromUrl sv (download_url f) (publicId (name f)) st")
  from uploadImageFromUrl_events [OF up] obtain evs where evs:
    "trace st1 = trace st @ evs" "stream_urls evs = [download_url f]"
    "console_names evs = []" "logged_successes evs = []" "listing_requests evs = []"
    "set (upload_calls evs) \<subseteq> {upload_options (publicId (name f))}"
    by blast
  show ?thesis
  proof (cases r)
    case (Inl err)
    with assms up have "rs' = rs" "st' = emit (ConsoleError (name f) err) st1"
      by (simp_all add: upload_one_def)
    with evs have "trace st' = trace st @ (evs @ [ConsoleError (name f) err]) \<and>
        stream_urls (evs @ [ConsoleError (name f) err]) = [download_url f] \<and>
        console_names (evs @ [ConsoleError (name f) err]) = [name f] \<and>
        rs' = rs @ logged_successes (evs @ [ConsoleError (name f) err]) \<and>
        listing_requests (evs @ [ConsoleError (name f) err]) = [] \<and>
        set (upload_calls (evs @ [ConsoleError (name f) err])) \<subseteq>
          {upload_options (publicId (name f))}"
      by (simp add: emit_def)
    then show ?thesis by blast
  next
    case (Inr result)
    with assms up have "rs' = rs @ [\<lparr>file' = name f, url = secure_url result\<rparr>]"
      "st' = emit (ConsoleLog (name f) (secure_url result)) st1"
      by (simp_all add: upload_one_def)
    with evs have "trace st' = trace st @ (evs @ [ConsoleLog (name f) (secure_url result)]) \<and>
        stream_urls (evs @ [ConsoleLog (name f) (secure_url result)]) = [download_url f] \<and>
        console_names (evs @ [ConsoleLog (name f) (secure_url result)]) = [name f] \<and>
        rs' = rs @ logged_successes (evs @ [ConsoleLog (name f) (secure_url result)]) \<and>
        listing_requests (evs @ [ConsoleLog (name f) (secure_url result)]) = [] \<and>
        set (upload_calls (evs @ [ConsoleLog (name f) (secure_url result)])) \<subseteq>
          {upload_options (publicId (name f))}"
      by (simp add: emit_def)
    then show ?thesis by blast
  qed
qed

lemma upload_loop_events:
  "upload_loop sv fs (rs, st) = (rs', st') \<Longrightarrow>
     \<exists>evs. trace st' = trace st @ evs \<and> stream_urls evs = map download_url fs \<and>
           console_names evs = map name fs \<and> rs' = rs @ logged_successes evs \<and>
           listing_requests evs = [] \<and>
           set (upload_calls evs) \<subseteq> (\<lambda>f. upload_options (publicId (name f))) ` set fs"
proof (induction fs arbitrary: rs st)
  case Nil
  then have "trace st' = trace st @ [] \<and> stream_urls [] = map download_url [] \<and>
      console_names [] = map name [] \<and> rs' = rs @ logged_successes [] \<and>
      listing_requests [] = [] \<and>
      set (upload_calls []) \<subseteq> (\<lambda>f. upload_options (publicId (name f))) ` set []"
    by simp
  then show ?case by blast
next
  case (Cons f fs)
  obtain rs1 st1 where one: "upload_one sv f (rs, st) = (rs1, st1)"
    by (cases "upload_one sv f (rs, st)")
  with Cons.prems have rest: "upload_loop sv fs (rs1, st1) = (rs', st')" by simp
  from upload_one_events [OF one] obtain e1 where e1:
    "trace st1 = trace st @ e1" "stream_urls e1 = [download_url f]"
    "console_names e1 = [name f]" "rs1 = rs @ logged_successes e1" "listing_requests e1 = []"
    "set (upload_calls e1) \<subseteq> {upload_options (publicId (name f))}"
    by blast
  from Cons.IH [OF rest] obtain e2 where e2:
    "trace st' = trace st1 @ e2" "stream_urls e2 = map download_url fs"
    "console_names e2 = map name fs" "rs' = rs1 @ logged_successes e2" "listing_requests e2 = []"
    "set (upload_calls e2) \<subseteq> (\<lambda>f. upload_options (publicId (name f))) ` set fs"
    by blast
  from e1(6) e2(6) have calls: "set (upload_calls (e1 @ e2)) \<subseteq>
      (\<lambda>f. upload_options (publicId (name f))) ` set (f # fs)"
    by auto
  from e1 e2 have "trace st' = trace st @ (e1 @ e2) \<and>
      stream_urls (e1 @ e2) = map download_url (f # fs) \<and>
      console_names (e1 @ e2) = map name (f # fs) \<and>
      rs' = rs @ logged_successes (e1 @ e2) \<and> listing_requests (e1 @ e2) = []"
    by simp
  with calls show ?case by blast
qed

text \<open>The handler after a listing that succeeded, and after one that failed.\<close>

lemma GET_listed:
  assumes "axios_get sv w (listing_url env) listing_headers = (Inr (Listing files), w1)"
  shows "\<exists>evs st. GET sv env w =
             (\<lparr>status = 200, headers = json_headers,
               body = report_body (logged_successes evs)\<rparr>, st) \<and>
           trace st = AxiosGet (listing_url env) listing_headers # evs \<and>
           stream_urls evs = map download_url (imageFiles files) \<and>
           console_names evs = map name (imageFiles files) \<and>
           listing_requests evs = [] \<and>
           set (upload_calls evs) \<subseteq>
             (\<lambda>f. upload_options (publicId (name f))) ` set (imageFiles files)"
proof -
  let ?st0 = "\<lparr>world = w1, trace = [AxiosGet (listing_url env) listing_headers]\<rparr>"
  obtain rs st where loop: "upload_loop sv (imageFiles files) ([], ?st0) = (rs, st)"
    by (cases "upload_loop sv (imageFiles files) ([], ?st0)")
  from upload_loop_events [OF loop] obtain evs where evs:
    "trace st = trace ?st0 @ evs" "stream_urls evs = map download_url (imageFiles files)"
    "console_names evs = map name (imageFiles files)" "rs = [] @ logged_successes evs"
    "listing_requests evs = []"
    "set (upload_calls evs) \<subseteq> (\<lambda>f. upload_options (publicId (name f))) ` set (imageFiles files)"
    by blast
  from assms loop evs(4) have "GET sv env w =
      (\<lparr>status = 200, headers = json_headers, body = report_body (logged_successes evs)\<rparr>, st)"
    by (simp add: GET_def)
  moreover from evs(1) have "trace st = AxiosGet (listing_url env) listing_headers # evs"
    by simp
  ultimately show ?thesis using evs(2,3,5,6) by blast
qed

lemma GET_not_listed:
  assumes "axios_get sv w (listing_url env) listing_headers = (Inl err, w1)"
  shows "GET sv env w =
     (\<lparr>status = 500, headers = json_headers, body = JObject [(''error'', JString err)]\<rparr>,
      \<lparr>world = w1, trace = [AxiosGet (listing_url env) listing_headers]\<rparr>)"
  using assms by (simp add: GET_def)


text \<open>After a payload that is not an array.\<close>

lemma GET_object:
  assumes "axios_get sv w (listing_url env) listing_headers = (Inr (ObjectData obj), w1)"
  shows "GET sv env w =
     (\<lparr>status = 500, headers = json_headers,
       body = JObject [(''error'', JString filter_TypeError)]\<rparr>,
      \<lparr>world = w1, trace = [AxiosGet (listing_url env) listing_headers]\<rparr>)"
  using assms by (simp add: GET_def)

text \<open>The status is 200 after an array of descriptors and 500 after anything else.\<close>

lemma GET_status_cases:
  "(\<exists>err w1. axios_get sv w (listing_url env) listing_headers = (Inl err, w1) \<and>
       status (fst (GET sv env w)) = 500) \<or>
   (\<exists>obj w1. axios_get sv w (listing_url env) listing_headers = (Inr (ObjectData obj), w1) \<and>
       status (fst (GET sv env w)) = 500) \<or>
   (\<exists>files w1. axios_get sv w (listing_url env) listing_headers = (Inr (Listing files), w1) \<and>
       status (fst (GET sv env w)) = 200)"
proof (cases "axios_get sv w (listing_url env) listing_headers")
  case (Pair r w1)
  show ?thesis
  proof (cases r)
    case (Inl err)
    with Pair GET_not_listed [of sv w env err w1] show ?thesis by simp
  next
    case (Inr data)
    show ?thesis
    proof (cases data)
      case (Listing files)
      with Pair Inr GET_listed [of sv w env files w1] show ?thesis by auto
    next
      case (ObjectData obj)
      with Pair Inr GET_object [of sv w env obj w1] show ?thesis by simp
    qed
  qed
qed

text \<open>
  The loop against the outcomes of the attempts: it records the successes, writes one
  error line for each failure, and leaves the world where the last attempt left it.
\<close>

lemma length_spec_outcomes: "length (spec_outcomes sv w fs) = length fs"
  by (induction fs arbitrary: w) (simp_all split: prod.splits sum.splits)

lemma upload_one_outcome:
  assumes "upload_one sv f (rs, st) = (rs', st')"
  shows "rs' = rs @ spec_successes [f] (spec_outcomes sv (world st) [f]) \<and>
     failed_flags (trace st') =
       failed_flags (trace st) @ map isl (spec_outcomes sv (world st) [f]) \<and>
     spec_outcomes sv (world st) (f # fs) =
       spec_outcomes sv (world st) [f] @ spec_outcomes sv (world st') fs"
proof (cases "axios_stream sv (world st) (download_url f)")
  case (Pair a w1)
  show ?thesis
  proof (cases a)
    case (Inl err)
    with Pair assms show ?thesis
      by (auto simp: upload_one_def uploadImageFromUrl_def emit_def Let_def)
  next
    case (Inr data)
    obtain res w2 where up:
      "upload_stream sv w1 (upload_options (publicId (name f))) data = (res, w2)"
      by (cases "upload_stream sv w1 (upload_options (publicId (name f))) data")
    with Pair Inr assms show ?thesis
      by (cases res) (auto simp: upload_one_def uploadImageFromUrl_def emit_def Let_def)
  qed
qed

lemma spec_successes_append:
  "length fs = length os \<Longrightarrow>
     spec_successes (fs @ gs) (os @ ps) = spec_successes fs os @ spec_successes gs ps"
  by (induction fs os rule: spec_successes.induct) simp_all

lemma upload_loop_outcomes:
  "upload_loop sv fs (rs, st) = (rs', st') \<Longrightarrow>
     rs' = rs @ spec_successes fs (spec_outcomes sv (world st) fs) \<and>
     failed_flags (trace st') =
       failed_flags (trace st) @ map isl (spec_outcomes sv (world st) fs)"
proof (induction fs arbitrary: rs st)
  case Nil
  then show ?case by simp
next
  case (Cons f fs)
  obtain rs1 st1 where one: "upload_one sv f (rs, st) = (rs1, st1)"
    by (cases "upload_one sv f (rs, st)")
  with Cons.prems have rest: "upload_loop sv fs (rs1, st1) = (rs', st')" by simp
  define o1 where "o1 = spec_outcomes sv (world st) [f]"
  define o2 where "o2 = spec_outcomes sv (world st1) fs"
  from upload_one_outcome [OF one, of fs] have o:
    "rs1 = rs @ spec_successes [f] o1"
    "failed_flags (trace st1) = failed_flags (trace st) @ map isl o1"
    "spec_outcomes sv (world st) (f # fs) = o1 @ o2"
    unfolding o1_def o2_def by blast+
  from Cons.IH [OF rest] have r:
    "rs' = rs1 @ spec_successes fs o2"
    "failed_flags (trace st') = failed_flags (trace st1) @ map isl o2"
    unfolding o2_def by blast+
  have len: "length [f] = length o1"
    unfolding o1_def by (metis length_spec_outcomes)
  have succ: "spec_successes (f # fs) (o1 @ o2) = spec_successes [f] o1 @ spec_successes fs o2"
    using spec_successes_append [OF len, of fs o2] by simp
  from o(1,2) r succ show ?case unfolding o(3) by simp
qed

lemma GET_listed_outcomes:
  assumes "axios_get sv w (listing_url env) listing_headers = (Inr (Listing files), w1)"
  shows "\<exists>st. GET sv env w =
             (\<lparr>status = 200, headers = json_headers,
               body = report_body
                 (spec_successes (imageFiles files) (spec_outcomes sv w1 (imageFiles files)))\<rparr>,
              st) \<and>
           failed_flags (trace st) = map isl (spec_outcomes sv w1 (imageFiles files)) \<and>
           logged_successes (trace st) =
             spec_successes (imageFiles files) (spec_outcomes sv w1 (imageFiles files)) \<and>
           stream_urls (trace st) = map download_url (imageFiles files) \<and>
           console_names (trace st) = map name (imageFiles files)"
proof -
  let ?st0 = "\<lparr>world = w1, trace = [AxiosGet (listing_url env) listing_headers]\<rparr>"
  obtain rs st where loop: "upload_loop sv (imageFiles files) ([], ?st0) = (rs, st)"
    by (cases "upload_loop sv (imageFiles files) ([], ?st0)")
  from upload_loop_outcomes [OF loop] have out:
    "rs = spec_successes (imageFiles files) (spec_outcomes sv w1 (imageFiles files))"
    "failed_flags (trace st) = map isl (spec_outcomes sv w1 (imageFiles files))"
    by simp_all
  from upload_loop_events [OF loop] have ev:
    "stream_urls (trace st) = map download_url (imageFiles files)"
    "console_names (trace st) = map name (imageFiles files)"
    "logged_successes (trace st) = rs"
    by auto
  from assms loop out(1) have "GET sv env w =
      (\<lparr>status = 200, headers = json_headers,
        body = report_body
          (spec_successes (imageFiles files) (spec_outcomes sv w1 (imageFiles files)))\<rparr>, st)"
    by (simp add: GET_def)
  with out ev show ?thesis by blast
qed

text \<open>The report over the successes: its length and its order.\<close>

lemma length_spec_successes:
  "length fs = length os \<Longrightarrow>
     length (spec_successes fs os) = length fs - length (filter isl os)"
proof (induction fs os rule: spec_successes.induct)
  case (1 f fs r os)
  have "length (filter isl os) \<le> length os" by simp
  with 1 show ?case by (simp add: Suc_diff_le)
qed simp_all

lemma spec_successes_order:
  "length fs = length os \<Longrightarrow>
     map file' (spec_successes fs os) =
       map (\<lambda>p. name (fst p)) (filter (\<lambda>p. \<not> isl (snd p)) (zip fs os))"
  by (induction fs os rule: spec_successes.induct) simp_all

text \<open>Members of the filtered list, runs over a prefix, and successes as a subsequence.\<close>

lemma imageFiles_member:
  "f \<in> set (imageFiles files) \<Longrightarrow> type f = ''file'' \<and> regex_test_image (name f)"
  by (simp add: imageFiles_def isImageFile_def)

lemma upload_loop_append:
  "upload_loop sv (xs @ ys) acc = upload_loop sv ys (upload_loop sv xs acc)"
  by (induction xs arbitrary: acc) simp_all

lemma subseq_successes: "subseq (map file' (logged_successes tr)) (console_names tr)"
  by (induction tr rule: failed_flags.induct) auto

lemma subseq_of_map:
  assumes "subseq ys (map f xs)"
  shows "\<exists>sub. subseq sub xs \<and> ys = map f sub"
proof -
  from assms obtain N where "ys = nths (map f xs) N" by (auto simp: subseq_conv_nths)
  then have "ys = map f (nths xs N)" by (simp add: nths_map)
  moreover have "subseq (nths xs N) xs" by (auto simp: subseq_conv_nths)
  ultimately show ?thesis by blast
qed

subsection \<open>The handler in the small world\<close>

lemma demo_run:
  "GET (demo_services (Inr (Listing demo_files))) demo_env 0 =
     (\<lparr>status = 200, headers = [(''Content-Type'', ''application/json'')],
       body = JObject
        [(''message'', JString ''Upload complete''),
         (''uploaded'',
          JArray
           [JObject [(''file'', JString ''a.jpg''), (''url'', JString ''res/raw/a.jpg'')],
            JObject [(''file'', JString ''photo.final.png''),
                     (''url'', JString ''res/raw/photo.final.png'')]])]\<rparr>,
      \<lparr>world = 6,
        trace =
         [AxiosGet demo_url [(''Accept'', ''application/vnd.github.v3+json'')],
          AxiosStream ''raw/a.jpg'',
          UploadStream [(''folder'', JString ''github-images''), (''public_id'', JString ''a'')],
          ConsoleLog ''a.jpg'' ''res/raw/a.jpg'',
          AxiosStream ''raw/b.PNG'',
          ConsoleError ''b.PNG'' ''Request failed with status code 404'',
          AxiosStream ''raw/photo.final.png'',
          UploadStream [(''folder'', JString ''github-images''),
                        (''public_id'', JString ''photo.final'')],
          ConsoleLog ''photo.final.png'' ''res/raw/photo.final.png'']\<rparr>)"
  by code_simp

lemma demo_imageFiles:
  "imageFiles demo_files =
     [\<lparr>name = ''a.jpg'', download_url = ''raw/a.jpg'', type = ''file''\<rparr>,
      \<lparr>name = ''b.PNG'', download_url = ''raw/b.PNG'', type = ''file''\<rparr>,
      \<lparr>name = ''photo.final.png'', download_url = ''raw/photo.final.png'', type = ''file''\<rparr>]"
  by code_simp

lemma demo_down_run:
  "GET (demo_services (Inl ''Request failed with status code 403'')) demo_env 0 =
     (\<lparr>status = 500, headers = [(''Content-Type'', ''application/json'')],
       body = JObject [(''error'', JString ''Request failed with status code 403'')]\<rparr>,
      \<lparr>world = 1,
        trace = [AxiosGet demo_url [(''Accept'', ''application/vnd.github.v3+json'')]]\<rparr>)"
  by code_simp

lemma flaky_imageFiles:
  "imageFiles flaky_files =
     [\<lparr>name = ''a.jpg'', download_url = ''raw/a.jpg'', type = ''file''\<rparr>,
      \<lparr>name = ''b.PNG'', download_url = ''raw/b.PNG'', type = ''file''\<rparr>,
      \<lparr>name = ''c.gif'', download_url = ''raw/c.gif'', type = ''file''\<rparr>,
      \<lparr>name = ''d.webp'', download_url = ''raw/d.webp'', type = ''file''\<rparr>]"
  by code_simp

lemma flaky_outcomes:
  "spec_outcomes (demo_services (Inr (Listing flaky_files))) 1 (imageFiles flaky_files) =
     [Inr \<lparr>secure_url = ''res/raw/a.jpg''\<rparr>, Inl ''Request failed with status code 404'',
      Inl ''Invalid image file'', Inr \<lparr>secure_url = ''res/raw/d.webp''\<rparr>]"
  by code_simp

lemma flaky_run:
  "GET (demo_services (Inr (Listing flaky_files))) demo_env 0 =
     (\<lparr>status = 200, headers = [(''Content-Type'', ''application/json'')],
       body = JObject
        [(''message'', JString ''Upload complete''),
         (''uploaded'',
          JArray
           [JObject [(''file'', JString ''a.jpg''), (''url'', JString ''res/raw/a.jpg'')],
            JObject [(''file'', JString ''d.webp''), (''url'', JString ''res/raw/d.webp'')]])]\<rparr>,
      \<lparr>world = 8,
        trace =
         [AxiosGet demo_url [(''Accept'', ''application/vnd.github.v3+json'')],
          AxiosStream ''raw/a.jpg'',
          UploadStream [(''folder'', JString ''github-images''), (''public_id'', JString ''a'')],
          ConsoleLog ''a.jpg'' ''res/raw/a.jpg'',
          AxiosStream ''raw/b.PNG'',
          ConsoleError ''b.PNG'' ''Request failed with status code 404'',
          AxiosStream ''raw/c.gif'',
          UploadStream [(''folder'', JString ''github-images''), (''public_id'', JString ''c'')],
          ConsoleError ''c.gif'' ''Invalid image file'',
          AxiosStream ''raw/d.webp'',
          UploadStream [(''folder'', JString ''github-images''), (''public_id'', JString ''d'')],
          ConsoleLog ''d.webp'' ''res/raw/d.webp'']\<rparr>)"
  by code_simp

lemma object_run:
  "GET (demo_services (Inr (ObjectData file_object))) demo_env 0 =
     (\<lparr>status = 500, headers = [(''Content-Type'', ''application/json'')],
       body = JObject [(''error'', JString ''files.filter is not a function'')]\<rparr>,
      \<lparr>world = 1,
        trace = [AxiosGet demo_url [(''Accept'', ''application/vnd.github.v3+json'')]]\<rparr>)"
  by code_simp

lemma readme_not_image: "\<not> regex_test_image ''readme.md''"
  by code_simp

section \<open>The claims\<close>

text \<open>
  C1. After a listing that succeeded the handler makes one upload attempt for every
  eligible descriptor, in order, whatever the attempts before it returned: the outcomes
  that the capabilities give are \<open>N\<close> for \<open>N\<close> eligible descriptors, a download is
  requested and a console line written for each, and the handler writes an error line
  exactly for the attempts that failed, so the attempts after a failed one are made. The
  \<open>uploaded\<close> list of the body holds the file and the delivery URL of the attempts that
  succeeded and nothing else: its length is \<open>N\<close> minus the number of failed attempts,
  and its files are the names of the eligible descriptors whose attempt did not fail, in
  the order of the filtered listing.
\<close>

theorem GET_continues_after_failed_uploads:
  assumes "axios_get sv w (listing_url env) listing_headers = (Inr (Listing files), w1)"
  shows "\<exists>st.
     GET sv env w =
       (\<lparr>status = 200, headers = [(''Content-Type'', ''application/json'')],
         body = JObject
           [(''message'', JString ''Upload complete''),
            (''uploaded'',
             JArray (map (\<lambda>r. JObject [(''file'', JString (file' r)), (''url'', JString (url r))])
                       (spec_successes (imageFiles files)
                          (spec_outcomes sv w1 (imageFiles files)))))]\<rparr>, st) \<and>
     length (spec_outcomes sv w1 (imageFiles files)) = length (imageFiles files) \<and>
     stream_urls (trace st) = map download_url (imageFiles files) \<and>
     console_names (trace st) = map name (imageFiles files) \<and>
     failed_flags (trace st) = map isl (spec_outcomes sv w1 (imageFiles files)) \<and>
     logged_successes (trace st) =
       spec_successes (imageFiles files) (spec_outcomes sv w1 (imageFiles files)) \<and>
     (\<forall>k j. k < j \<and> j < length (imageFiles files) \<and>
            isl (spec_outcomes sv w1 (imageFiles files) ! k) \<longrightarrow>
        stream_urls (trace st) ! j = download_url (imageFiles files ! j) \<and>
        console_names (trace st) ! j = name (imageFiles files ! j)) \<and>
     length (spec_successes (imageFiles files) (spec_outcomes sv w1 (imageFiles files))) =
       length (imageFiles files) -
       length (filter isl (spec_outcomes sv w1 (imageFiles files))) \<and>
     map file' (spec_successes (imageFiles files) (spec_outcomes sv w1 (imageFiles files))) =
       map (\<lambda>p. name (fst p))
         (filter (\<lambda>p. \<not> isl (snd p))
            (zip (imageFiles files) (spec_outcomes sv w1 (imageFiles files))))"
proof -
  let ?imgs = "imageFiles files"
  let ?outs = "spec_outcomes sv w1 ?imgs"
  from GET_listed_outcomes [OF assms] obtain st where g:
    "GET sv env w =
       (\<lparr>status = 200, headers = json_headers,
         body = report_body (spec_successes ?imgs ?outs)\<rparr>, st)"
    "failed_flags (trace st) = map isl ?outs"
    "logged_successes (trace st) = spec_successes ?imgs ?outs"
    "stream_urls (trace st) = map download_url ?imgs"
    "console_names (trace st) = map name ?imgs"
    by blast
  have rj: "result_json = (\<lambda>r. JObject [(''file'', JString (file' r)), (''url'', JString (url r))])"
    by (rule ext) (simp add: result_json_def)
  from g(1) have run: "GET sv env w =
       (\<lparr>status = 200, headers = [(''Content-Type'', ''application/json'')],
         body = JObject
           [(''message'', JString ''Upload complete''),
            (''uploaded'',
             JArray (map (\<lambda>r. JObject [(''file'', JString (file' r)), (''url'', JString (url r))])
                       (spec_successes ?imgs ?outs)))]\<rparr>, st)"
    by (simp add: report_body_def json_headers_def rj)
  have len: "length ?outs = length ?imgs" by (rule length_spec_outcomes)
  have later: "\<forall>k j. k < j \<and> j < length ?imgs \<and> isl (?outs ! k) \<longrightarrow>
        stream_urls (trace st) ! j = download_url (?imgs ! j) \<and>
        console_names (trace st) ! j = name (?imgs ! j)"
    using g(4,5) by simp
  have cnt: "length (spec_successes ?imgs ?outs) = length ?imgs - length (filter isl ?outs)"
    using length_spec_successes [OF len [symmetric]] .
  have ord: "map file' (spec_successes ?imgs ?outs) =
       map (\<lambda>p. name (fst p)) (filter (\<lambda>p. \<not> isl (snd p)) (zip ?imgs ?outs))"
    using spec_successes_order [OF len [symmetric]] .
  from run len g(2,3,4,5) later cnt ord show ?thesis by blast
qed

theorem GET_continues_after_failed_uploads_witness:
  "axios_get (demo_services (Inr (Listing flaky_files))) 0 (listing_url demo_env)
     listing_headers = (Inr (Listing flaky_files), 1) \<and>
   spec_outcomes (demo_services (Inr (Listing flaky_files))) 1 (imageFiles flaky_files) =
     [Inr \<lparr>secure_url = ''res/raw/a.jpg''\<rparr>, Inl ''Request failed with status code 404'',
      Inl ''Invalid image file'', Inr \<lparr>secure_url = ''res/raw/d.webp''\<rparr>] \<and>
   stream_urls (trace (snd (GET (demo_services (Inr (Listing flaky_files))) demo_env 0))) =
     [''raw/a.jpg'', ''raw/b.PNG'', ''raw/c.gif'', ''raw/d.webp''] \<and>
   failed_flags (trace (snd (GET (demo_services (Inr (Listing flaky_files))) demo_env 0))) =
     [False, True, True, False] \<and>
   body (fst (GET (demo_services (Inr (Listing flaky_files))) demo_env 0)) =
     JObject
       [(''message'', JString ''Upload complete''),
        (''uploaded'',
         JArray
           [JObject [(''file'', JString ''a.jpg''), (''url'', JString ''res/raw/a.jpg'')],
            JObject [(''file'', JString ''d.webp''), (''url'', JString ''res/raw/d.webp'')]])]"
proof -
  let ?D = "demo_services (Inr (Listing flaky_files))"
  have h: "axios_get ?D 0 (listing_url demo_env) listing_headers = (Inr (Listing flaky_files), 1)"
    by (simp add: demo_services_def)
  from GET_continues_after_failed_uploads [OF h] obtain st where r:
    "GET ?D demo_env 0 =
       (\<lparr>status = 200, headers = [(''Content-Type'', ''application/json'')],
         body = JObject
           [(''message'', JString ''Upload complete''),
            (''uploaded'',
             JArray (map (\<lambda>r. JObject [(''file'', JString (file' r)), (''url'', JString (url r))])
                       (spec_successes (imageFiles flaky_files)
                          (spec_outcomes ?D 1 (imageFiles flaky_files)))))]\<rparr>, st)"
    "stream_urls (trace st) = map download_url (imageFiles flaky_files)"
    "failed_flags (trace st) = map isl (spec_outcomes ?D 1 (imageFiles flaky_files))"
    by blast
  from r(1) have st: "st = snd (GET ?D demo_env 0)" by simp
  have urls: "stream_urls (trace (snd (GET ?D demo_env 0))) =
      [''raw/a.jpg'', ''raw/b.PNG'', ''raw/c.gif'', ''raw/d.webp'']"
    using r(2) unfolding st flaky_imageFiles by simp
  have flags: "failed_flags (trace (snd (GET ?D demo_env 0))) = [False, True, True, False]"
    using r(3) unfolding st flaky_outcomes by simp
  have "spec_successes (imageFiles flaky_files) (spec_outcomes ?D 1 (imageFiles flaky_files)) =
      [\<lparr>file' = ''a.jpg'', url = ''res/raw/a.jpg''\<rparr>,
       \<lparr>file' = ''d.webp'', url = ''res/raw/d.webp''\<rparr>]"
    unfolding flaky_outcomes unfolding flaky_imageFiles by simp
  with r(1) have bd: "body (fst (GET ?D demo_env 0)) =
     JObject
       [(''message'', JString ''Upload complete''),
        (''uploaded'',
         JArray
           [JObject [(''file'', JString ''a.jpg''), (''url'', JString ''res/raw/a.jpg'')],
            JObject [(''file'', JString ''d.webp''), (''url'', JString ''res/raw/d.webp'')]])]"
    by simp
  from h flaky_outcomes urls flags bd show ?thesis by blast
qed

text \<open>
  C2. The filter of the handler keeps exactly the descriptors whose kind is file and
  whose name ends, without regard to case, with a dot and one of \<open>jpg\<close>, \<open>jpeg\<close>,
  \<open>png\<close>, \<open>gif\<close>, \<open>webp\<close>, and it keeps them in the order of the listing.
\<close>

theorem imageFiles_selects_eligible_in_order:
  "imageFiles files = filter spec_isEligible files \<and> subseq (imageFiles files) files"
proof -
  have "isImageFile = spec_isEligible" by (rule ext) (rule isImageFile_spec)
  then show ?thesis by (simp add: imageFiles_def)
qed

text \<open>
  C3, as the claim states it, fails in its last part. In this run the listing request
  resolves, with the object that GitHub sends for a path that is a file; the filter
  throws, and the handler answers 500 from the filtering stage.
\<close>

theorem GET_object_payload_counterexample:
  "axios_get (demo_services (Inr (ObjectData file_object))) 0 (listing_url demo_env)
     listing_headers = (Inr (ObjectData file_object), 1) \<and>
   status (fst (GET (demo_services (Inr (ObjectData file_object))) demo_env 0)) = 500 \<and>
   body (fst (GET (demo_services (Inr (ObjectData file_object))) demo_env 0)) =
     JObject [(''error'', JString ''files.filter is not a function'')]"
  unfolding object_run by (simp add: demo_services_def)

text \<open>
  C3, as the code has it. When the listing request fails, the handler answers with
  status 500 and the message of the error, and the trace holds the listing request
  alone: no download is requested and \<open>upload_stream\<close> is never called. The same
  answer, with the message of the \<open>TypeError\<close> and again without any upload, is given
  when the listing request resolves with an object in place of an array. When it
  resolves with an array of descriptors the status is 200, whatever the uploads do.
\<close>

theorem GET_fails_without_uploads:
  "(\<forall>err w1. axios_get sv w (listing_url env) listing_headers = (Inl err, w1) \<longrightarrow>
      fst (GET sv env w) =
        \<lparr>status = 500, headers = json_headers, body = JObject [(''error'', JString err)]\<rparr> \<and>
      trace (snd (GET sv env w)) = [AxiosGet (listing_url env) listing_headers] \<and>
      stream_urls (trace (snd (GET sv env w))) = [] \<and>
      upload_calls (trace (snd (GET sv env w))) = []) \<and>
   (\<forall>obj w1. axios_get sv w (listing_url env) listing_headers = (Inr (ObjectData obj), w1) \<longrightarrow>
      fst (GET sv env w) =
        \<lparr>status = 500, headers = json_headers,
          body = JObject [(''error'', JString ''files.filter is not a function'')]\<rparr> \<and>
      trace (snd (GET sv env w)) = [AxiosGet (listing_url env) listing_headers] \<and>
      stream_urls (trace (snd (GET sv env w))) = [] \<and>
      upload_calls (trace (snd (GET sv env w))) = []) \<and>
   (\<forall>files w1. axios_get sv w (listing_url env) listing_headers = (Inr (Listing files), w1) \<longrightarrow>
      status (fst (GET sv env w)) = 200)"
proof -
  have a: "fst (GET sv env w) =
        \<lparr>status = 500, headers = json_headers, body = JObject [(''error'', JString err)]\<rparr> \<and>
      trace (snd (GET sv env w)) = [AxiosGet (listing_url env) listing_headers] \<and>
      stream_urls (trace (snd (GET sv env w))) = [] \<and>
      upload_calls (trace (snd (GET sv env w))) = []"
    if h: "axios_get sv w (listing_url env) listing_headers = (Inl err, w1)" for err w1
    using GET_not_listed [OF h] by simp
  have b: "fst (GET sv env w) =
        \<lparr>status = 500, headers = json_headers,
          body = JObject [(''error'', JString ''files.filter is not a function'')]\<rparr> \<and>
      trace (snd (GET sv env w)) = [AxiosGet (listing_url env) listing_headers] \<and>
      stream_urls (trace (snd (GET sv env w))) = [] \<and>
      upload_calls (trace (snd (GET sv env w))) = []"
    if h: "axios_get sv w (listing_url env) listing_headers = (Inr (ObjectData obj), w1)"
    for obj w1
    using GET_object [OF h] by (simp add: filter_TypeError_def)
  have c: "status (fst (GET sv env w)) = 200"
    if h: "axios_get sv w (listing_url env) listing_headers = (Inr (Listing files), w1)"
    for files w1
    using GET_listed [OF h] by auto
  from a b c show ?thesis by blast
qed

theorem GET_fails_without_uploads_witness:
  "axios_get (demo_services (Inl ''Request failed with status code 403'')) 0
      (listing_url demo_env) listing_headers = (Inl ''Request failed with status code 403'', 1) \<and>
   fst (GET (demo_services (Inl ''Request failed with status code 403'')) demo_env 0) =
     \<lparr>status = 500, headers = json_headers,
       body = JObject [(''error'', JString ''Request failed with status code 403'')]\<rparr> \<and>
   stream_urls (trace (snd (GET (demo_services (Inl ''Request failed with status code 403''))
      demo_env 0))) = [] \<and>
   upload_calls (trace (snd (GET (demo_services (Inl ''Request failed with status code 403''))
      demo_env 0))) = [] \<and>
   axios_get (demo_services (Inr (ObjectData file_object))) 0
      (listing_url demo_env) listing_headers = (Inr (ObjectData file_object), 1) \<and>
   stream_urls (trace (snd (GET (demo_services (Inr (ObjectData file_object))) demo_env 0))) =
     [] \<and>
   upload_calls (trace (snd (GET (demo_services (Inr (ObjectData file_object))) demo_env 0))) =
     [] \<and>
   axios_get (demo_services (Inr (Listing flaky_files))) 0
      (listing_url demo_env) listing_headers = (Inr (Listing flaky_files), 1) \<and>
   status (fst (GET (demo_services (Inr (Listing flaky_files))) demo_env 0)) = 200"
proof -
  let ?D = "demo_services (Inl ''Request failed with status code 403'')"
  let ?E = "demo_services (Inr (ObjectData file_object))"
  let ?F = "demo_services (Inr (Listing flaky_files))"
  have h: "axios_get ?D 0 (listing_url demo_env) listing_headers =
      (Inl ''Request failed with status code 403'', 1)"
    by (simp add: demo_services_def)
  have i: "axios_get ?E 0 (listing_url demo_env) listing_headers =
      (Inr (ObjectData file_object), 1)"
    by (simp add: demo_services_def)
  have j: "axios_get ?F 0 (listing_url demo_env) listing_headers =
      (Inr (Listing flaky_files), 1)"
    by (simp add: demo_services_def)
  from h GET_fails_without_uploads [of ?D 0 demo_env] have 1:
    "fst (GET ?D demo_env 0) =
       \<lparr>status = 500, headers = json_headers,
         body = JObject [(''error'', JString ''Request failed with status code 403'')]\<rparr> \<and>
     stream_urls (trace (snd (GET ?D demo_env 0))) = [] \<and>
     upload_calls (trace (snd (GET ?D demo_env 0))) = []"
    by blast
  from i GET_fails_without_uploads [of ?E 0 demo_env] have 2:
    "stream_urls (trace (snd (GET ?E demo_env 0))) = [] \<and>
     upload_calls (trace (snd (GET ?E demo_env 0))) = []"
    by blast
  from j GET_fails_without_uploads [of ?F 0 demo_env] have 3:
    "status (fst (GET ?F demo_env 0)) = 200"
    by blast
  from h i j 1 2 3 show ?thesis by blast
qed

text \<open>
  C4. The options object that the handler passes to \<open>upload_stream\<close> holds the
  folder and the public identifier and nothing else: in the run of the small world both
  calls carry these two keys only, and the keys \<open>transformation\<close>, \<open>format\<close>,
  \<open>width\<close>, \<open>height\<close> and \<open>crop\<close> are absent. The documentation of the
  repository describes the call with a 500 by 400 fill transformation and WebP output.
\<close>

theorem upload_stream_options_without_transformation:
  "upload_calls (trace (snd (GET (demo_services (Inr (Listing demo_files))) demo_env 0))) =
     [[(''folder'', JString ''github-images''), (''public_id'', JString ''a'')],
      [(''folder'', JString ''github-images''), (''public_id'', JString ''photo.final'')]] \<and>
   upload_options ''a'' = [(''folder'', JString ''github-images''), (''public_id'', JString ''a'')] \<and>
   map_of (upload_options ''a'') ''transformation'' = None \<and>
   map_of (upload_options ''a'') ''format'' = None \<and>
   map_of (upload_options ''a'') ''width'' = None \<and>
   map_of (upload_options ''a'') ''height'' = None \<and>
   map_of (upload_options ''a'') ''crop'' = None"
  unfolding demo_run by (simp add: upload_options_def)

text \<open>
  C5. For every name that passes the filter, the upload identifier is the name without
  its last extension segment: the name is the identifier, a dot, and a non-empty
  extension without a dot. In particular \<open>photo.final.png\<close> gives \<open>photo.final\<close>.
\<close>

theorem publicId_strips_final_extension:
  "(\<forall>nm. regex_test_image nm \<longrightarrow>
      (\<exists>ext. nm = publicId nm @ CHR ''.'' # ext \<and> ext \<noteq> [] \<and> CHR ''.'' \<notin> set ext \<and>
             image_ext ext))
   \<and> publicId ''photo.final.png'' = ''photo.final''"
proof (intro conjI allI impI)
  fix nm
  assume "regex_test_image nm"
  then obtain pre ext where pe: "nm = pre @ CHR ''.'' # ext" "image_ext ext"
    unfolding regex_test_image_iff by blast
  from pe(2) have seg: "ext \<noteq> []" "list_all (\<lambda>d. d \<noteq> CHR ''/'' \<and> d \<noteq> CHR ''.'') ext"
    using image_ext_segment by blast+
  then have "publicId nm = pre" unfolding pe(1) by (rule publicId_strip)
  moreover from seg(2) have "CHR ''.'' \<notin> set ext" by (auto simp: list_all_iff)
  ultimately show "\<exists>ext. nm = publicId nm @ CHR ''.'' # ext \<and> ext \<noteq> [] \<and> CHR ''.'' \<notin> set ext \<and>
             image_ext ext"
    using pe seg(1) by blast
next
  show "publicId ''photo.final.png'' = ''photo.final''" by simp
qed

theorem publicId_strips_final_extension_witness:
  "regex_test_image ''photo.final.png'' \<and>
   (\<exists>ext. ''photo.final.png'' = publicId ''photo.final.png'' @ CHR ''.'' # ext \<and> ext \<noteq> [] \<and>
          CHR ''.'' \<notin> set ext \<and> image_ext ext)"
proof -
  have "regex_test_image ''photo.final.png''" by code_simp
  with publicId_strips_final_extension show ?thesis by blast
qed

text \<open>
  C6. When the handler answers with status 200, the listing request resolved with an
  array of descriptors and one upload attempt was made for every eligible descriptor,
  in order. The body holds the message and the \<open>uploaded\<close> list and no other key, and
  the list has one entry, file and delivery URL, for each attempt that the capabilities
  let succeed, in order: an attempt that failed leaves no entry, and neither its file
  nor its error message enters the body.
\<close>

theorem GET_success_reports_successes_only:
  assumes "status (fst (GET sv env w)) = 200"
  shows "\<exists>files w1.
     axios_get sv w (listing_url env) listing_headers = (Inr (Listing files), w1) \<and>
     stream_urls (trace (snd (GET sv env w))) = map download_url (imageFiles files) \<and>
     console_names (trace (snd (GET sv env w))) = map name (imageFiles files) \<and>
     fst (GET sv env w) =
       \<lparr>status = 200, headers = [(''Content-Type'', ''application/json'')],
         body = JObject
           [(''message'', JString ''Upload complete''),
            (''uploaded'',
             JArray (map (\<lambda>r. JObject [(''file'', JString (file' r)), (''url'', JString (url r))])
                       (spec_successes (imageFiles files)
                          (spec_outcomes sv w1 (imageFiles files)))))]\<rparr> \<and>
     length (spec_successes (imageFiles files) (spec_outcomes sv w1 (imageFiles files))) =
       length (filter (\<lambda>p. \<not> isl (snd p))
         (zip (imageFiles files) (spec_outcomes sv w1 (imageFiles files)))) \<and>
     map file' (spec_successes (imageFiles files) (spec_outcomes sv w1 (imageFiles files))) =
       map (\<lambda>p. name (fst p))
         (filter (\<lambda>p. \<not> isl (snd p))
            (zip (imageFiles files) (spec_outcomes sv w1 (imageFiles files))))"
proof -
  from assms GET_status_cases [of sv w env] obtain files w1 where
    h: "axios_get sv w (listing_url env) listing_headers = (Inr (Listing files), w1)"
    by auto
  let ?imgs = "imageFiles files"
  let ?outs = "spec_outcomes sv w1 ?imgs"
  from GET_listed_outcomes [OF h] obtain st where g:
    "GET sv env w =
       (\<lparr>status = 200, headers = json_headers,
         body = report_body (spec_successes ?imgs ?outs)\<rparr>, st)"
    "stream_urls (trace st) = map download_url ?imgs"
    "console_names (trace st) = map name ?imgs"
    by blast
  have rj: "result_json = (\<lambda>r. JObject [(''file'', JString (file' r)), (''url'', JString (url r))])"
    by (rule ext) (simp add: result_json_def)
  from g(1) have run: "fst (GET sv env w) =
       \<lparr>status = 200, headers = [(''Content-Type'', ''application/json'')],
         body = JObject
           [(''message'', JString ''Upload complete''),
            (''uploaded'',
             JArray (map (\<lambda>r. JObject [(''file'', JString (file' r)), (''url'', JString (url r))])
                       (spec_successes ?imgs ?outs)))]\<rparr>"
    by (simp add: report_body_def json_headers_def rj)
  from g have tr: "stream_urls (trace (snd (GET sv env w))) = map download_url ?imgs"
    "console_names (trace (snd (GET sv env w))) = map name ?imgs"
    by simp_all
  have len: "length ?imgs = length ?outs" by (simp add: length_spec_outcomes)
  have ord: "map file' (spec_successes ?imgs ?outs) =
       map (\<lambda>p. name (fst p)) (filter (\<lambda>p. \<not> isl (snd p)) (zip ?imgs ?outs))"
    using spec_successes_order [OF len] .
  then have "length (map file' (spec_successes ?imgs ?outs)) =
       length (map (\<lambda>p. name (fst p)) (filter (\<lambda>p. \<not> isl (snd p)) (zip ?imgs ?outs)))"
    by (rule arg_cong)
  then have cnt: "length (spec_successes ?imgs ?outs) =
       length (filter (\<lambda>p. \<not> isl (snd p)) (zip ?imgs ?outs))"
    by simp
  from h tr run cnt ord show ?thesis by blast
qed

theorem GET_success_reports_successes_only_witness:
  "status (fst (GET (demo_services (Inr (Listing flaky_files))) demo_env 0)) = 200 \<and>
   axios_get (demo_services (Inr (Listing flaky_files))) 0 (listing_url demo_env)
     listing_headers = (Inr (Listing flaky_files), 1) \<and>
   console_names (trace (snd (GET (demo_services (Inr (Listing flaky_files))) demo_env 0))) =
     [''a.jpg'', ''b.PNG'', ''c.gif'', ''d.webp''] \<and>
   spec_outcomes (demo_services (Inr (Listing flaky_files))) 1 (imageFiles flaky_files) =
     [Inr \<lparr>secure_url = ''res/raw/a.jpg''\<rparr>, Inl ''Request failed with status code 404'',
      Inl ''Invalid image file'', Inr \<lparr>secure_url = ''res/raw/d.webp''\<rparr>] \<and>
   fst (GET (demo_services (Inr (Listing flaky_files))) demo_env 0) =
     \<lparr>status = 200, headers = [(''Content-Type'', ''application/json'')],
       body = JObject
         [(''message'', JString ''Upload complete''),
          (''uploaded'',
           JArray
             [JObject [(''file'', JString ''a.jpg''), (''url'', JString ''res/raw/a.jpg'')],
              JObject [(''file'', JString ''d.webp''), (''url'', JString ''res/raw/d.webp'')]])]\<rparr>"
proof -
  let ?D = "demo_services (Inr (Listing flaky_files))"
  have s: "status (fst (GET ?D demo_env 0)) = 200"
    unfolding flaky_run by simp
  have h: "axios_get ?D 0 (listing_url demo_env) listing_headers = (Inr (Listing flaky_files), 1)"
    by (simp add: demo_services_def)
  from GET_success_reports_successes_only [OF s] obtain files w1 where r:
    "axios_get ?D 0 (listing_url demo_env) listing_headers = (Inr (Listing files), w1)"
    "console_names (trace (snd (GET ?D demo_env 0))) = map name (imageFiles files)"
    "fst (GET ?D demo_env 0) =
       \<lparr>status = 200, headers = [(''Content-Type'', ''application/json'')],
         body = JObject
           [(''message'', JString ''Upload complete''),
            (''uploaded'',
             JArray (map (\<lambda>r. JObject [(''file'', JString (file' r)), (''url'', JString (url r))])
                       (spec_successes (imageFiles files)
                          (spec_outcomes ?D w1 (imageFiles files)))))]\<rparr>"
    by blast
  from r(1) h have fw: "files = flaky_files" "w1 = 1" by simp_all
  have names: "console_names (trace (snd (GET ?D demo_env 0))) =
      [''a.jpg'', ''b.PNG'', ''c.gif'', ''d.webp'']"
    using r(2) unfolding fw flaky_imageFiles by simp
  have "spec_successes (imageFiles flaky_files) (spec_outcomes ?D 1 (imageFiles flaky_files)) =
      [\<lparr>file' = ''a.jpg'', url = ''res/raw/a.jpg''\<rparr>,
       \<lparr>file' = ''d.webp'', url = ''res/raw/d.webp''\<rparr>]"
    unfolding flaky_outcomes unfolding flaky_imageFiles by simp
  with r(3) have bd: "fst (GET ?D demo_env 0) =
     \<lparr>status = 200, headers = [(''Content-Type'', ''application/json'')],
       body = JObject
         [(''message'', JString ''Upload complete''),
          (''uploaded'',
           JArray
             [JObject [(''file'', JString ''a.jpg''), (''url'', JString ''res/raw/a.jpg'')],
              JObject [(''file'', JString ''d.webp''), (''url'', JString ''res/raw/d.webp'')]])]\<rparr>"
    unfolding fw by simp
  from s h names flaky_outcomes bd show ?thesis by blast
qed

text \<open>
  C7. After a listing that succeeded, the downloads requested, the console lines and
  the calls of \<open>upload_stream\<close> all come from the filtered list, which is a
  subsequence of the listing; each of its members has kind file and a name on the
  allow-list, none is called \<open>readme.md\<close>, and a descriptor of another kind or with
  a name off the allow-list is not a member.
\<close>

theorem GET_uploads_only_image_files:
  assumes "axios_get sv w (listing_url env) listing_headers = (Inr (Listing files), w1)"
  shows "stream_urls (trace (snd (GET sv env w))) = map download_url (imageFiles files) \<and>
     console_names (trace (snd (GET sv env w))) = map name (imageFiles files) \<and>
     set (upload_calls (trace (snd (GET sv env w)))) \<subseteq>
       (\<lambda>f. upload_options (publicId (name f))) ` set (imageFiles files) \<and>
     subseq (imageFiles files) files \<and>
     (\<forall>f \<in> set (imageFiles files).
        type f = ''file'' \<and> spec_matches_allow_list (name f) \<and> name f \<noteq> ''readme.md'') \<and>
     (\<forall>f. type f \<noteq> ''file'' \<or> \<not> spec_matches_allow_list (name f) \<longrightarrow>
        f \<notin> set (imageFiles files))"
proof -
  from GET_listed [OF assms] obtain evs st where g:
    "GET sv env w =
       (\<lparr>status = 200, headers = json_headers, body = report_body (logged_successes evs)\<rparr>, st)"
    "trace st = AxiosGet (listing_url env) listing_headers # evs"
    "stream_urls evs = map download_url (imageFiles files)"
    "console_names evs = map name (imageFiles files)"
    "set (upload_calls evs) \<subseteq> (\<lambda>f. upload_options (publicId (name f))) ` set (imageFiles files)"
    by blast
  from g have tr: "stream_urls (trace (snd (GET sv env w))) = map download_url (imageFiles files)"
    "console_names (trace (snd (GET sv env w))) = map name (imageFiles files)"
    "set (upload_calls (trace (snd (GET sv env w)))) \<subseteq>
       (\<lambda>f. upload_options (publicId (name f))) ` set (imageFiles files)"
    by simp_all
  have sub: "subseq (imageFiles files) files" by (simp add: imageFiles_def)
  have mem: "type f = ''file'' \<and> spec_matches_allow_list (name f) \<and> name f \<noteq> ''readme.md''"
    if "f \<in> set (imageFiles files)" for f
    using imageFiles_member [OF that] readme_not_image
    by (auto simp: regex_test_image_iff spec_matches_allow_list_iff)
  from mem have out: "\<forall>f. type f \<noteq> ''file'' \<or> \<not> spec_matches_allow_list (name f) \<longrightarrow>
        f \<notin> set (imageFiles files)"
    by blast
  from tr sub mem out show ?thesis by blast
qed

theorem GET_uploads_only_image_files_witness:
  "axios_get (demo_services (Inr (Listing demo_files))) 0 (listing_url demo_env) listing_headers =
     (Inr (Listing demo_files), 1) \<and>
   stream_urls (trace (snd (GET (demo_services (Inr (Listing demo_files))) demo_env 0))) =
     [''raw/a.jpg'', ''raw/b.PNG'', ''raw/photo.final.png''] \<and>
   console_names (trace (snd (GET (demo_services (Inr (Listing demo_files))) demo_env 0))) =
     [''a.jpg'', ''b.PNG'', ''photo.final.png''] \<and>
   \<lparr>name = ''readme.md'', download_url = ''raw/readme.md'', type = ''file''\<rparr>
     \<notin> set (imageFiles demo_files) \<and>
   \<lparr>name = ''old.gif'', download_url = ''raw/old.gif'', type = ''dir''\<rparr>
     \<notin> set (imageFiles demo_files)"
proof -
  let ?D = "demo_services (Inr (Listing demo_files))"
  have h: "axios_get ?D 0 (listing_url demo_env) listing_headers = (Inr (Listing demo_files), 1)"
    by (simp add: demo_services_def)
  note t = GET_uploads_only_image_files [OF h]
  from t have u: "stream_urls (trace (snd (GET ?D demo_env 0))) =
      [''raw/a.jpg'', ''raw/b.PNG'', ''raw/photo.final.png'']"
    unfolding demo_imageFiles by simp
  from t have c: "console_names (trace (snd (GET ?D demo_env 0))) =
      [''a.jpg'', ''b.PNG'', ''photo.final.png'']"
    unfolding demo_imageFiles by simp
  from t have r: "\<lparr>name = ''readme.md'', download_url = ''raw/readme.md'', type = ''file''\<rparr>
      \<notin> set (imageFiles demo_files)"
    by fastforce
  from t have d: "\<lparr>name = ''old.gif'', download_url = ''raw/old.gif'', type = ''dir''\<rparr>
      \<notin> set (imageFiles demo_files)"
    by fastforce
  from h u c r d show ?thesis by blast
qed

text \<open>
  C8, as the claim states it, fails. In the run of the small world \<open>GITHUB_TOKEN\<close> is
  set, and the listing request carries the \<open>Accept\<close> header alone: it has no
  \<open>Authorization\<close> header.
\<close>

theorem listing_request_with_token_counterexample:
  "GITHUB_TOKEN demo_env = Some ''ghp_example'' \<and>
   listing_requests (trace (snd (GET (demo_services (Inr (Listing demo_files))) demo_env 0))) =
     [(demo_url, [(''Accept'', ''application/vnd.github.v3+json'')])] \<and>
   map_of [(''Accept'', ''application/vnd.github.v3+json'')] ''Authorization'' = None"
  unfolding demo_run by (simp add: demo_env_def)

text \<open>
  C8, as the code has it. The listing request of every run carries the \<open>Accept\<close>
  header and no other, whether or not \<open>GITHUB_TOKEN\<close> is set: it has no
  \<open>Authorization\<close> header, and its URL does not depend on the token either.
\<close>

theorem listing_request_has_no_authorization:
  "listing_requests (trace (snd (GET sv env w))) =
     [(listing_url env, [(''Accept'', ''application/vnd.github.v3+json'')])] \<and>
   map_of [(''Accept'', ''application/vnd.github.v3+json'')] ''Authorization'' = None \<and>
   (\<forall>tok. listing_url (env\<lparr>GITHUB_TOKEN := tok\<rparr>) = listing_url env)"
proof -
  have "listing_requests (trace (snd (GET sv env w))) = [(listing_url env, listing_headers)]"
  proof (cases "axios_get sv w (listing_url env) listing_headers")
    case (Pair r w1)
    show ?thesis
    proof (cases r)
      case (Inl err)
      with Pair GET_not_listed [of sv w env err w1] show ?thesis by simp
    next
      case (Inr data)
      show ?thesis
      proof (cases data)
        case (Listing files)
        with Pair Inr GET_listed [of sv w env files w1] show ?thesis by auto
      next
        case (ObjectData obj)
        with Pair Inr GET_object [of sv w env obj w1] show ?thesis by simp
      qed
    qed
  qed
  then show ?thesis by (simp add: listing_headers_def listing_url_def)
qed

text \<open>
  C9. After any number \<open>k\<close> of passes through the loop, the files of
  \<open>uploadResults\<close> are the names of a subsequence of the eligible descriptors, so each
  is the name of an eligible descriptor and they stand in the eligible order; there are
  at most as many results as eligible descriptors, and at most as many of those as listed
  descriptors. The last conjunct says that the run over the first \<open>k\<close> eligible
  descriptors is the state of the whole loop after \<open>k\<close> passes.
\<close>

theorem uploadResults_invariant:
  "\<exists>sub. subseq sub (imageFiles files) \<and>
     map file' (fst (upload_loop sv (take k (imageFiles files)) ([], st0))) = map name sub \<and>
     set (map file' (fst (upload_loop sv (take k (imageFiles files)) ([], st0)))) \<subseteq>
       set (map name (imageFiles files)) \<and>
     length (fst (upload_loop sv (take k (imageFiles files)) ([], st0))) \<le>
       length (imageFiles files) \<and>
     length (imageFiles files) \<le> length files \<and>
     upload_loop sv (imageFiles files) ([], st0) =
       upload_loop sv (drop k (imageFiles files))
         (upload_loop sv (take k (imageFiles files)) ([], st0))"
proof -
  let ?imgs = "imageFiles files"
  obtain rs st where loop: "upload_loop sv (take k ?imgs) ([], st0) = (rs, st)"
    by (cases "upload_loop sv (take k ?imgs) ([], st0)")
  from upload_loop_events [OF loop] obtain evs where evs:
    "console_names evs = map name (take k ?imgs)" "rs = [] @ logged_successes evs"
    by blast
  from subseq_successes [of evs] evs have "subseq (map file' rs) (map name (take k ?imgs))"
    by simp
  from subseq_of_map [OF this] obtain sub where sub:
    "subseq sub (take k ?imgs)" "map file' rs = map name sub"
    by blast
  have "subseq (take k ?imgs) ?imgs"
    by (metis append_take_drop_id subseq_rev_drop_many subseq_order.order_refl)
  with sub(1) have s1: "subseq sub ?imgs" by (rule subseq_order.order_trans)
  from s1 have "set sub \<subseteq> set ?imgs" by (auto dest: list_emb_set)
  then have s2: "set (map file' rs) \<subseteq> set (map name ?imgs)"
    unfolding sub(2) by auto
  from sub(2) have "length rs = length sub" by (metis length_map)
  with s1 have s3: "length rs \<le> length ?imgs" by (simp add: list_emb_length)
  have s4: "length ?imgs \<le> length files" by (simp add: imageFiles_def)
  have s5: "upload_loop sv ?imgs ([], st0) =
      upload_loop sv (drop k ?imgs) (upload_loop sv (take k ?imgs) ([], st0))"
    using upload_loop_append [of sv "take k ?imgs" "drop k ?imgs" "([], st0)"] by simp
  from s1 sub(2) s2 s3 s4 s5 show ?thesis unfolding loop by auto
qed



end
